theory Spec2Isabelle
  imports Complex_Main
begin

section \<open>Chebyshev series evaluation in keycheb.py\<close>

text \<open>
  The script \<^verbatim>\<open>keycheb.py\<close> holds three functions: the recursive Chebyshev
  polynomial \<^verbatim>\<open>t\<close>, the basis summation \<^verbatim>\<open>tpoly\<close> and the Clenshaw evaluator
  \<^verbatim>\<open>clenshaw\<close>. They are embedded below over exact arithmetic: a Python float
  is a \<^typ>\<open>real\<close>, so \<^verbatim>\<open>float(...)\<close> is the identity, and a Python integer is an
  \<^typ>\<open>int\<close>. Rounding is outside the model.
\<close>

subsection \<open>Indexing a coefficient array\<close>

text \<open>
  \<^verbatim>\<open>a[i]\<close> on a one-dimensional array: a negative index counts from the end, and an
  index outside \<^verbatim>\<open>-len(a) .. len(a) - 1\<close> raises \<^verbatim>\<open>IndexError\<close>.
\<close>

datatype py_error = IndexError

definition getitem :: "real list \<Rightarrow> int \<Rightarrow> py_error + real" where
  "getitem a i =
     (let n = int (length a); j = (if i < 0 then i + n else i)
      in if 0 \<le> j \<and> j < n then Inr (a ! nat j) else Inl IndexError)"

subsection \<open>The oracle: \<^verbatim>\<open>t\<close> and \<^verbatim>\<open>tpoly\<close>\<close>

text \<open>
  \<^verbatim>\<open>
  def t(n, x):
      if n == 0:
          return 1
      elif n == 1:
          return x
      else:
          return 2 * x * t(n - 1, x) - t(n - 2, x)
  \<close>
  The argument \<^verbatim>\<open>n\<close> is a Python integer and nothing in the body keeps it from being
  negative, so the recursion is not obviously well-founded: the function is defined as a
  partial function, where \<open>None\<close> stands for a call that does not return. The left
  operand of the subtraction is evaluated first.
\<close>

partial_function (option) t :: "int \<Rightarrow> real \<Rightarrow> real option" where
  "t n x =
     (if n = 0 then Some 1
      else if n = 1 then Some x
      else Option.bind (t (n - 1) x) (\<lambda>u.
           Option.bind (t (n - 2) x) (\<lambda>v. Some (2 * x * u - v))))"

declare t.simps [code]

text \<open>
  \<^verbatim>\<open>
  def tpoly(c, x):
      n = len(c)
      return sum(c[i] * t(i, x) for i in range(n))
  \<close>
  \<^verbatim>\<open>sum\<close> starts from \<open>0\<close> and adds the terms of the generator in the order of
  \<^verbatim>\<open>range(n)\<close>; each term reads \<^verbatim>\<open>c[i]\<close> and then calls \<^verbatim>\<open>t(i, x)\<close>. The outcome is
  \<open>None\<close> when a call of \<^verbatim>\<open>t\<close> does not return, \<open>Some (Inl e)\<close> when an
  exception \<open>e\<close> is raised and \<open>Some (Inr v)\<close> when \<open>v\<close> is returned.
\<close>

fun tpoly_sum :: "real list \<Rightarrow> real \<Rightarrow> int list \<Rightarrow> real \<Rightarrow> (py_error + real) option" where
  "tpoly_sum c x [] s = Some (Inr s)"
| "tpoly_sum c x (i # is) s =
     (case getitem c i of
        Inl e \<Rightarrow> Some (Inl e)
      | Inr ci \<Rightarrow>
          (case t i x of
             None \<Rightarrow> None
           | Some ti \<Rightarrow> tpoly_sum c x is (s + ci * ti)))"

definition tpoly :: "real list \<Rightarrow> real \<Rightarrow> (py_error + real) option" where
  "tpoly c x = (let n = int (length c) in tpoly_sum c x [0..n - 1] 0)"

subsection \<open>The evaluator: \<^verbatim>\<open>clenshaw\<close>\<close>

text \<open>
  The loop of \<^verbatim>\<open>clenshaw\<close>, over the indices it is given, on the two running values:
  \<^verbatim>\<open>
  for k in reversed(range(N)):
      b_k = float(a[k]) + 2.0 * x * b_k_plus_1 - b_k_plus_2
      b_k_plus_2 = b_k_plus_1
      b_k_plus_1 = b_k
  \<close>
\<close>

fun clenshaw_loop ::
  "real list \<Rightarrow> real \<Rightarrow> int list \<Rightarrow> real \<times> real \<Rightarrow> py_error + real \<times> real" where
  "clenshaw_loop a x [] (b_k_plus_2, b_k_plus_1) = Inr (b_k_plus_2, b_k_plus_1)"
| "clenshaw_loop a x (k # ks) (b_k_plus_2, b_k_plus_1) =
     (case getitem a k of
        Inl e \<Rightarrow> Inl e
      | Inr ak \<Rightarrow>
          (let b_k = ak + 2 * x * b_k_plus_1 - b_k_plus_2
           in clenshaw_loop a x ks (b_k_plus_1, b_k)))"

text \<open>
  The general path of \<^verbatim>\<open>clenshaw\<close>, from the seeding to the closing step, with \<open>N\<close>
  as computed at the top of the function:
  \<^verbatim>\<open>
  b_k_plus_2 = 0.0
  b_k_plus_1 = float(a[N])
  for k in reversed(range(N)): ...
  return b_k_plus_1 - x * b_k_plus_2
  \<close>
\<close>

definition clenshaw_general :: "real list \<Rightarrow> real \<Rightarrow> int \<Rightarrow> py_error + real" where
  "clenshaw_general a x N =
     (case getitem a N of
        Inl e \<Rightarrow> Inl e
      | Inr aN \<Rightarrow>
          (case clenshaw_loop a x (rev [0..N - 1]) (0, aN) of
             Inl e \<Rightarrow> Inl e
           | Inr (b_k_plus_2, b_k_plus_1) \<Rightarrow> Inr (b_k_plus_1 - x * b_k_plus_2)))"

text \<open>
  \<^verbatim>\<open>
  N = len(a) - 1
  if N < 0:
      return 0.0
  if N == 0:
      return float(a[0])
  if N == 1:
      return float(a[0] + a[1] * x)
  \<close>
  and then the general path.
\<close>

definition clenshaw :: "real list \<Rightarrow> real \<Rightarrow> py_error + real" where
  "clenshaw a x =
     (let N = int (length a) - 1 in
      if N < 0 then Inr 0
      else if N = 0 then getitem a 0
      else if N = 1 then
        (case getitem a 0 of
           Inl e \<Rightarrow> Inl e
         | Inr a0 \<Rightarrow>
             (case getitem a 1 of
                Inl e \<Rightarrow> Inl e
              | Inr a1 \<Rightarrow> Inr (a0 + a1 * x)))
      else clenshaw_general a x N)"

subsection \<open>The specification's mathematics\<close>

text \<open>
  The Chebyshev polynomials of the first kind as the specification defines them:
  \<open>T\<^sub>0 = 1\<close>, \<open>T\<^sub>1(x) = x\<close>, \<open>T\<^sub>n(x) = 2x T\<^bsub>n-1\<^esub>(x) - T\<^bsub>n-2\<^esub>(x)\<close>.
\<close>

fun spec_T :: "nat \<Rightarrow> real \<Rightarrow> real" where
  "spec_T 0 x = 1"
| "spec_T (Suc 0) x = x"
| "spec_T (Suc (Suc n)) x = 2 * x * spec_T (Suc n) x - spec_T n x"

text \<open>The Chebyshev series \<open>\<Sum> a\<^sub>i T\<^sub>i(x)\<close> of a coefficient sequence.\<close>

definition spec_series :: "real list \<Rightarrow> real \<Rightarrow> real" where
  "spec_series a x = (\<Sum>i<length a. a ! i * spec_T i x)"

text \<open>
  The backward recurrence as the specification words it, for a sequence of degree
  \<open>N = length a - 1\<close>: \<open>b\<^bsub>N+1\<^esub> = 0\<close>, \<open>b\<^sub>N = a[N]\<close> and
  \<open>b\<^sub>k = a[k] + 2x b\<^bsub>k+1\<^esub> - b\<^bsub>k+2\<^esub>\<close> below \<open>N\<close>.
\<close>

function spec_b :: "real list \<Rightarrow> real \<Rightarrow> nat \<Rightarrow> real" where
  "spec_b a x k =
     (if length a - 1 < k then 0
      else if k = length a - 1 then a ! (length a - 1)
      else a ! k + 2 * x * spec_b a x (k + 1) - spec_b a x (k + 2))"
  by pat_completeness auto
termination
  by (relation "measure (\<lambda>(a, x, k). length a - k)") auto

declare spec_b.simps [simp del]

subsection \<open>The recurrence as a function of the coefficient list\<close>

text \<open>
  For the proofs, the pair \<open>(b\<^bsub>k+1\<^esub>, b\<^sub>k)\<close> is computed from the coefficients
  \<open>a[k], a[k+1], \<dots>\<close> alone, from the last one backwards and starting at \<open>(0, 0)\<close>;
  \<open>closing\<close> is the last line of \<^verbatim>\<open>clenshaw\<close> on such a pair.
\<close>

fun backward :: "real \<Rightarrow> real list \<Rightarrow> real \<times> real" where
  "backward x [] = (0, 0)"
| "backward x (c # cs) = (case backward x cs of (b2, b1) \<Rightarrow> (b1, c + 2 * x * b1 - b2))"

definition closing :: "real \<Rightarrow> real \<times> real \<Rightarrow> real" where
  "closing x p = snd p - x * fst p"

section \<open>The loop and the general path\<close>

lemma getitem_nat: "i < length a \<Longrightarrow> getitem a (int i) = Inr (a ! i)"
  by (simp add: getitem_def)

lemma rev_upto_Suc: "rev [0..int (Suc k) - 1] = int k # rev [0..int k - 1]"
proof -
  have "[0..int k] = [0..int k - 1] @ [int k]"
    by (rule upto_rec2) simp
  then show ?thesis by simp
qed

text \<open>
  Started on the pair that belongs to the coefficients from index \<open>k\<close> on, the loop over
  \<open>k - 1, \<dots>, 0\<close> reads only indices in range and ends on the pair of the whole list.
\<close>

lemma clenshaw_loop_backward:
  "k \<le> length a \<Longrightarrow>
     clenshaw_loop a x (rev [0..int k - 1]) (backward x (drop k a)) = Inr (backward x a)"
proof (induction k)
  case 0
  then show ?case by (cases "backward x a") simp
next
  case (Suc k)
  then have k: "k < length a" by simp
  obtain b2 b1 where st: "backward x (drop (Suc k) a) = (b2, b1)"
    by (cases "backward x (drop (Suc k) a)")
  have "drop k a = a ! k # drop (Suc k) a"
    using k by (simp add: Cons_nth_drop_Suc)
  then have next_st: "backward x (drop k a) = (b1, a ! k + 2 * x * b1 - b2)"
    by (simp add: st)
  have "clenshaw_loop a x (rev [0..int (Suc k) - 1]) (b2, b1) =
        clenshaw_loop a x (rev [0..int k - 1]) (b1, a ! k + 2 * x * b1 - b2)"
    unfolding rev_upto_Suc by (simp add: getitem_nat [OF k])
  also have "\<dots> = Inr (backward x a)"
    using Suc.IH k by (simp add: next_st)
  finally show ?case by (simp add: st)
qed

lemma clenshaw_general_backward:
  assumes "a \<noteq> []"
  shows "clenshaw_general a x (int (length a) - 1) = Inr (closing x (backward x a))"
proof -
  define N where "N = length a - 1"
  have N: "N < length a" "int (length a) - 1 = int N"
    using assms by (cases a; simp add: N_def)+
  have "drop N a = [a ! N]"
    using assms N(1) by (simp add: N_def Cons_nth_drop_Suc [symmetric])
  then have seed: "backward x (drop N a) = (0, a ! N)" by simp
  have "clenshaw_loop a x (rev [0..int N - 1]) (0, a ! N) = Inr (backward x a)"
    using clenshaw_loop_backward [of N a x] N(1) by (simp add: seed)
  then show ?thesis
    by (cases "backward x a")
       (simp add: clenshaw_general_def N(2) getitem_nat [OF N(1)] closing_def)
qed

lemma clenshaw_general_empty:
  "clenshaw_general [] x (int (length ([] :: real list)) - 1) = Inl IndexError"
  by (simp add: clenshaw_general_def getitem_def)

text \<open>All four branches of \<^verbatim>\<open>clenshaw\<close> return the closing step of the whole list.\<close>

lemma clenshaw_backward: "clenshaw a x = Inr (closing x (backward x a))"
proof (cases a)
  case Nil
  then show ?thesis by (simp add: clenshaw_def closing_def)
next
  case (Cons a0 as)
  note a = this
  show ?thesis
  proof (cases as)
    case Nil
    then show ?thesis by (simp add: a clenshaw_def getitem_def closing_def)
  next
    case (Cons a1 as')
    note as = this
    show ?thesis
    proof (cases as')
      case Nil
      then show ?thesis
        by (simp add: a as clenshaw_def getitem_def closing_def algebra_simps)
    next
      case (Cons a2 as'')
      then have "clenshaw a x = clenshaw_general a x (int (length a) - 1)"
        by (simp add: a as clenshaw_def)
      then show ?thesis
        using clenshaw_general_backward [of a x] a by simp
    qed
  qed
qed

section \<open>The recurrence sums the series\<close>

lemma series_shift_Cons:
  "(\<Sum>i<length (c # cs). (c # cs) ! i * spec_T (m + i) x) =
     c * spec_T m x + (\<Sum>i<length cs. cs ! i * spec_T (Suc m + i) x)"
  by (simp add: sum.lessThan_Suc_shift del: sum.lessThan_Suc)

text \<open>
  The series of \<open>cs\<close> against the polynomials from \<open>T\<^bsub>m+1\<^esub>\<close> on is
  \<open>b\<^sub>0 T\<^bsub>m+1\<^esub> - b\<^sub>1 T\<^sub>m\<close>.
\<close>

lemma backward_shifted:
  "(\<Sum>i<length cs. cs ! i * spec_T (Suc m + i) x) =
     snd (backward x cs) * spec_T (Suc m) x - fst (backward x cs) * spec_T m x"
proof (induction cs arbitrary: m)
  case Nil
  then show ?case by simp
next
  case (Cons c cs)
  obtain b2 b1 where st: "backward x cs = (b2, b1)"
    by (cases "backward x cs")
  have "(\<Sum>i<length (c # cs). (c # cs) ! i * spec_T (Suc m + i) x) =
        c * spec_T (Suc m) x + (\<Sum>i<length cs. cs ! i * spec_T (Suc (Suc m) + i) x)"
    by (rule series_shift_Cons)
  also have "\<dots> = c * spec_T (Suc m) x + (b1 * spec_T (Suc (Suc m)) x - b2 * spec_T (Suc m) x)"
    using Cons.IH [of "Suc m"] by (simp only: st fst_conv snd_conv)
  also have "\<dots> = (c + 2 * x * b1 - b2) * spec_T (Suc m) x - b1 * spec_T m x"
    by (simp add: algebra_simps)
  finally show ?case by (simp add: st)
qed

lemma backward_series: "closing x (backward x a) = spec_series a x"
proof (cases a)
  case Nil
  then show ?thesis by (simp add: closing_def spec_series_def)
next
  case (Cons c cs)
  obtain b2 b1 where st: "backward x cs = (b2, b1)"
    by (cases "backward x cs")
  have "spec_series a x = c * spec_T 0 x + (\<Sum>i<length cs. cs ! i * spec_T (Suc 0 + i) x)"
    unfolding spec_series_def Cons using series_shift_Cons [of c cs 0 x] by simp
  also have "\<dots> = c + (b1 * x - b2)"
    using backward_shifted [of cs 0 x] by (simp add: st)
  finally show ?thesis
    by (simp add: Cons st closing_def algebra_simps)
qed

lemma clenshaw_series: "clenshaw a x = Inr (spec_series a x)"
  by (simp add: clenshaw_backward backward_series)

section \<open>The oracle returns\<close>

text \<open>On a natural number, \<^verbatim>\<open>t\<close> returns the Chebyshev polynomial of that degree.\<close>

lemma t_spec_T: "t (int n) x = Some (spec_T n x)"
proof (induction n x rule: spec_T.induct)
  case (1 x)
  then show ?case by (simp add: t.simps)
next
  case (2 x)
  then show ?case by (simp add: t.simps)
next
  case (3 n x)
  have idx: "int (Suc (Suc n)) \<noteq> 0" "int (Suc (Suc n)) \<noteq> 1"
    "int (Suc (Suc n)) - 1 = int (Suc n)" "int (Suc (Suc n)) - 2 = int n"
    by simp_all
  have "t (int (Suc (Suc n))) x =
        Option.bind (t (int (Suc n)) x) (\<lambda>u. Option.bind (t (int n) x) (\<lambda>v. Some (2 * x * u - v)))"
    by (subst t.simps) (simp only: idx if_False)
  also have "\<dots> = Some (2 * x * spec_T (Suc n) x - spec_T n x)"
    by (simp only: "3.IH" Option.bind.simps)
  finally show ?case by (simp only: spec_T.simps)
qed

text \<open>On a negative number it does not return: every call that returns has \<open>0 \<le> n\<close>.\<close>

lemma t_returns_nonneg:
  assumes "t n x = Some y"
  shows "0 \<le> n"
proof -
  have "(case (n, x) of (n, x) \<Rightarrow> \<lambda>y. 0 \<le> n) y"
  proof (rule t.raw_induct [where P = "\<lambda>n x y. 0 \<le> n" and xa = "(n, x)"])
    fix f :: "int \<Rightarrow> real \<Rightarrow> real option" and n x y
    assume IH: "\<And>m x y. f m x = Some y \<Longrightarrow> 0 \<le> m"
      and "(if n = 0 then Some 1 else if n = 1 then Some x
            else Option.bind (f (n - 1) x) (\<lambda>u. Option.bind (f (n - 2) x) (\<lambda>v. Some (2 * x * u - v)))) = Some y"
    then show "0 \<le> n"
      by (fastforce split: if_splits simp: bind_eq_Some_conv)
  next
    show "(case (n, x) of (n, x) \<Rightarrow> t n x) = Some y"
      using assms by simp
  qed
  then show ?thesis by simp
qed

lemma t_negative: "n < 0 \<Longrightarrow> t n x = None"
  using t_returns_nonneg [of n x] by (cases "t n x") auto

lemma tpoly_sum_series:
  "k \<le> length c \<Longrightarrow>
     tpoly_sum c x [int k..int (length c) - 1] s =
       Some (Inr (s + (\<Sum>i = k..<length c. c ! i * spec_T i x)))"
proof (induction "length c - k" arbitrary: k s)
  case 0
  then show ?case by simp
next
  case (Suc d)
  then have k: "k < length c" by simp
  have "[int k..int (length c) - 1] = int k # [int (Suc k)..int (length c) - 1]"
    using k by (subst upto_rec1) (simp_all add: add.commute)
  moreover have "tpoly_sum c x [int (Suc k)..int (length c) - 1] (s + c ! k * spec_T k x) =
      Some (Inr (s + c ! k * spec_T k x + (\<Sum>i = Suc k..<length c. c ! i * spec_T i x)))"
    using Suc.hyps(2) k by (intro Suc.hyps(1)) simp_all
  ultimately show ?case
    using k by (simp add: getitem_nat t_spec_T sum.atLeast_Suc_lessThan add.assoc)
qed

lemma tpoly_series: "tpoly c x = Some (Inr (spec_series c x))"
  using tpoly_sum_series [of 0 c x 0]
  by (simp add: tpoly_def spec_series_def atLeast0LessThan)

section \<open>The evaluator against the oracle\<close>

text \<open>
  C1. For every coefficient sequence \<open>a\<close> and every real \<open>x\<close>, \<^verbatim>\<open>tpoly(a, x)\<close> returns,
  its outcome is the outcome of \<^verbatim>\<open>clenshaw(a, x)\<close>, and this is the value
  \<open>\<Sum> a\<^sub>i T\<^sub>i(x)\<close> of the series, with \<open>T\<^sub>i\<close> given by the three-term recurrence
  (exact arithmetic).
\<close>

theorem clenshaw_equals_tpoly:
  "tpoly a x = Some (clenshaw a x) \<and> clenshaw a x = Inr (spec_series a x)"
  by (simp add: tpoly_series clenshaw_series)

section \<open>Degenerate lengths and totality\<close>

text \<open>
  C3. For every real \<open>x\<close>, \<^verbatim>\<open>clenshaw([], x)\<close> is \<open>0\<close>; for every \<open>c\<close> and \<open>x\<close>,
  \<^verbatim>\<open>clenshaw([c], x)\<close> is \<open>c\<close>; for every \<open>a0\<close>, \<open>a1\<close> and \<open>x\<close>,
  \<^verbatim>\<open>clenshaw([a0, a1], x)\<close> is \<open>a0 + a1 * x\<close>.
\<close>

theorem clenshaw_degenerate:
  "clenshaw [] x = Inr 0 \<and> clenshaw [c] x = Inr c \<and> clenshaw [a0, a1] x = Inr (a0 + a1 * x)"
  by (simp add: clenshaw_def getitem_def)

text \<open>
  C4. For every finite sequence of real coefficients, the empty one included, and every
  real \<open>x\<close>, \<^verbatim>\<open>clenshaw\<close> returns a real number: no path raises, and so no index into the
  coefficient sequence is out of range.
\<close>

theorem clenshaw_total: "\<exists>r. clenshaw a x = Inr r"
  by (simp add: clenshaw_backward)

section \<open>The backward recurrence of the specification\<close>

text \<open>
  From index \<open>k\<close> on, the pair of the list is \<open>(b\<^bsub>k+1\<^esub>, b\<^sub>k)\<close> of the
  specification's recurrence.
\<close>

lemma backward_spec_b:
  "k < length a \<Longrightarrow> backward x (drop k a) = (spec_b a x (Suc k), spec_b a x k)"
proof (induction "length a - Suc k" arbitrary: k)
  case 0
  then have k: "length a - 1 = k" "k < length a" by simp_all
  have "drop k a = [a ! k]"
    using k by (simp add: Cons_nth_drop_Suc [symmetric])
  moreover have "spec_b a x (Suc k) = 0"
    using k by (simp add: spec_b.simps [of a x "Suc k"])
  moreover have "spec_b a x k = a ! k"
    using k by (simp add: spec_b.simps [of a x k])
  ultimately show ?case by simp
next
  case (Suc d)
  then have k: "Suc k < length a" by simp
  have below: "\<not> length a - 1 < k" "k \<noteq> length a - 1"
    using k by simp_all
  have "backward x (drop (Suc k) a) = (spec_b a x (Suc (Suc k)), spec_b a x (Suc k))"
    using Suc.hyps(2) k by (intro Suc.hyps(1)) simp_all
  moreover have "drop k a = a ! k # drop (Suc k) a"
    using k by (simp add: Cons_nth_drop_Suc)
  moreover have "spec_b a x k = a ! k + 2 * x * spec_b a x (Suc k) - spec_b a x (Suc (Suc k))"
    using below by (subst spec_b.simps) simp
  ultimately show ?case by simp
qed

lemma clenshaw_spec_b:
  assumes "a \<noteq> []"
  shows "clenshaw a x = Inr (spec_b a x 0 - x * spec_b a x 1)"
  using assms backward_spec_b [of 0 a x] by (simp add: clenshaw_backward closing_def)

text \<open>
  C2. For every coefficient sequence \<open>a\<close> of length at least 3 and every real \<open>x\<close>,
  \<^verbatim>\<open>clenshaw(a, x)\<close> returns \<open>b\<^sub>0 - x b\<^sub>1\<close>, where \<open>b\<close> is the backward recurrence
  seeded with \<open>b\<^bsub>N+1\<^esub> = 0\<close> and \<open>b\<^sub>N = a[N]\<close> and continued by
  \<open>b\<^sub>k = a[k] + 2x b\<^bsub>k+1\<^esub> - b\<^bsub>k+2\<^esub>\<close> from \<open>N - 1\<close> down to \<open>0\<close>.
\<close>

theorem clenshaw_backward_recurrence:
  "3 \<le> length a \<Longrightarrow> clenshaw a x = Inr (spec_b a x 0 - x * spec_b a x 1)"
  by (rule clenshaw_spec_b) auto

theorem clenshaw_backward_recurrence_witness:
  "3 \<le> length [0, 0, 1, 0 :: real] \<and>
   clenshaw [0, 0, 1, 0] (1 / 2) =
     Inr (spec_b [0, 0, 1, 0] (1 / 2) 0 - 1 / 2 * spec_b [0, 0, 1, 0] (1 / 2) 1) \<and>
   spec_b [0, 0, 1, 0] (1 / 2) 0 = 0 \<and> spec_b [0, 0, 1, 0] (1 / 2) 1 = 1"
  using clenshaw_backward_recurrence [of "[0, 0, 1, 0]" "1 / 2"]
  by (simp add: spec_b.simps)

section \<open>Linearity in the coefficients\<close>

lemma backward_add:
  "length a = length b \<Longrightarrow>
     backward x (map2 (+) a b) =
       (fst (backward x a) + fst (backward x b), snd (backward x a) + snd (backward x b))"
  by (induction a b rule: list_induct2) (simp_all add: case_prod_beta algebra_simps)

lemma backward_scale:
  "backward x (map ((*) k) a) = (k * fst (backward x a), k * snd (backward x a))"
  by (induction a) (simp_all add: case_prod_beta algebra_simps)

lemma closing_add:
  "length a = length b \<Longrightarrow>
     closing x (backward x (map2 (+) a b)) = closing x (backward x a) + closing x (backward x b)"
  by (simp add: backward_add closing_def algebra_simps)

lemma closing_scale:
  "closing x (backward x (map ((*) k) a)) = k * closing x (backward x a)"
  by (simp add: backward_scale closing_def algebra_simps)

text \<open>
  C5. For coefficient sequences \<open>a\<close> and \<open>b\<close> of equal length and every real \<open>x\<close>,
  \<^verbatim>\<open>clenshaw\<close> of the element-wise sum is the sum of \<^verbatim>\<open>clenshaw(a, x)\<close> and
  \<^verbatim>\<open>clenshaw(b, x)\<close> (exact arithmetic).
\<close>

theorem clenshaw_linear:
  "length a = length b \<Longrightarrow>
     \<exists>u v. clenshaw a x = Inr u \<and> clenshaw b x = Inr v \<and>
           clenshaw (map2 (+) a b) x = Inr (u + v)"
  by (simp add: clenshaw_backward closing_add)

theorem clenshaw_linear_witness:
  "length [1, 2, 3 :: real] = length [4, 5, 6 :: real] \<and>
   (\<exists>u v. clenshaw [1, 2, 3] 2 = Inr u \<and> clenshaw [4, 5, 6] 2 = Inr v \<and>
          clenshaw (map2 (+) [1, 2, 3] [4, 5, 6]) 2 = Inr (u + v)) \<and>
   clenshaw [1, 2, 3] 2 = Inr 26 \<and> clenshaw [4, 5, 6] 2 = Inr 56 \<and>
   clenshaw (map2 (+) [1, 2, 3] [4, 5, 6]) 2 = Inr 82"
  using clenshaw_linear [of "[1, 2, 3]" "[4, 5, 6]" 2]
  by (simp add: clenshaw_def clenshaw_general_def getitem_def upto.simps)

text \<open>
  C6. For every coefficient sequence \<open>a\<close>, every scalar \<open>k\<close> and every real \<open>x\<close>,
  \<^verbatim>\<open>clenshaw\<close> of the element-wise multiple \<open>k * a\<close> is \<open>k\<close> times \<^verbatim>\<open>clenshaw(a, x)\<close>
  (exact arithmetic).
\<close>

theorem clenshaw_homogeneous:
  "\<exists>u. clenshaw a x = Inr u \<and> clenshaw (map ((*) k) a) x = Inr (k * u)"
  by (simp add: clenshaw_backward closing_scale)

section \<open>The short-circuit cases and the general path\<close>

text \<open>
  C7. Run on \<open>[c]\<close> and on \<open>[a0, a1]\<close> with its own seeding and closing step, the general
  path returns \<open>c\<close> and \<open>a0 + a1 * x\<close>, the values the short-circuit cases of
  \<^verbatim>\<open>clenshaw\<close> return.
\<close>

theorem short_circuit_is_general_path:
  "clenshaw_general [c] x (int (length [c]) - 1) = Inr c \<and>
   clenshaw [c] x = Inr c \<and>
   clenshaw_general [a0, a1] x (int (length [a0, a1]) - 1) = Inr (a0 + a1 * x) \<and>
   clenshaw [a0, a1] x = Inr (a0 + a1 * x)"
  by (simp add: clenshaw_def clenshaw_general_def getitem_def upto.simps)

section \<open>Concrete scenarios\<close>

lemma spec_T_at_1: "spec_T k 1 = 1"
  by (induction k "1 :: real" rule: spec_T.induct) simp_all

lemma spec_T_at_minus_1: "spec_T k (- 1) = (- 1) ^ k"
  by (induction k "- 1 :: real" rule: spec_T.induct) simp_all

text \<open>
  C8. \<^verbatim>\<open>clenshaw([0, 0, 1, 0], 0.5)\<close> is \<open>-0.5\<close>, which is \<open>T\<^sub>2(0.5) = 2 * 0.5\<^sup>2 - 1\<close>.
\<close>

theorem clenshaw_pure_T2:
  "clenshaw [0, 0, 1, 0] (1 / 2) = Inr (- 1 / 2) \<and>
   spec_T 2 (1 / 2) = - 1 / 2 \<and> 2 * (1 / 2)\<^sup>2 - 1 = (- 1 / 2 :: real)"
  by (simp add: clenshaw_def clenshaw_general_def getitem_def upto.simps numeral_2_eq_2)

text \<open>
  C9. \<^verbatim>\<open>clenshaw([2, -1, 0.5], 1)\<close> is \<open>1.5\<close>, the sum of the coefficients, as
  \<open>T\<^sub>k(1) = 1\<close> for every \<open>k\<close>; \<^verbatim>\<open>clenshaw([2, -1, 0.5], -1)\<close> is \<open>3.5\<close>, the
  alternating sum, as \<open>T\<^sub>k(-1) = (-1)\<^sup>k\<close>.
\<close>

theorem clenshaw_endpoints:
  "clenshaw [2, - 1, 1 / 2] 1 = Inr (3 / 2) \<and>
   clenshaw [2, - 1, 1 / 2] (- 1) = Inr (7 / 2) \<and>
   (\<forall>k. spec_T k 1 = 1) \<and> (\<forall>k. spec_T k (- 1) = (- 1) ^ k)"
  by (simp add: clenshaw_def clenshaw_general_def getitem_def upto.simps
      spec_T_at_1 spec_T_at_minus_1)

section \<open>Termination of the oracle\<close>

text \<open>
  C10. For every integer \<open>n \<ge> 0\<close> and every real \<open>x\<close> the call \<^verbatim>\<open>t(n, x)\<close> returns, and
  so \<^verbatim>\<open>tpoly\<close> returns a value on every finite coefficient sequence.
\<close>

theorem oracle_terminates:
  "0 \<le> n \<Longrightarrow> (\<exists>y. t n x = Some y) \<and> (\<exists>r. tpoly c x = Some (Inr r))"
  using t_spec_T [of "nat n" x] by (simp add: tpoly_series)

theorem oracle_terminates_witness:
  "(0 :: int) \<le> 3 \<and> (\<exists>y. t 3 (1 / 2) = Some y) \<and>
   (\<exists>r. tpoly [2, - 1, 1 / 2] (1 / 2) = Some (Inr r)) \<and>
   t 3 (1 / 2) = Some (- 1) \<and> tpoly [2, - 1, 1 / 2] (1 / 2) = Some (Inr (5 / 4))"
  using oracle_terminates [of 3 "1 / 2" "[2, - 1, 1 / 2]"]
  by (simp add: tpoly_def getitem_def t.simps upto.simps)

end
